theory Spec2Isabelle
  imports Main "HOL-Library.AList" "HOL-Library.Sublist"
begin

section \<open>The signaling relay of server.js\<close>

text \<open>
  The relay keeps one piece of state, \<^verbatim>\<open>let users = {}\<close>, an object keyed by
  \<^verbatim>\<open>socket.id\<close> whose values are \<^verbatim>\<open>{ username, id }\<close>. Every handler
  registered inside \<^verbatim>\<open>io.on('connection', ...)\<close> is modelled as a function from the
  state to either a thrown error or the new state with the emissions the handler made.

  A socket id is the string socket.io assigns to the connection. The ids socket.io
  generates are 20 characters long (\<open>socket_io_id\<close> below); such a key is truthy, is not an
  array index and is not \<^verbatim>\<open>__proto__\<close>, so the own properties of \<^verbatim>\<open>users\<close> are
  enumerated in insertion order, a re-assigned key keeps its place and a deleted key that
  is assigned again goes to the end. The object is therefore an association list in
  insertion order. Reading \<^verbatim>\<open>users[key]\<close> also looks in \<^verbatim>\<open>Object.prototype\<close>, whose
  only property with a name of 20 characters is \<^verbatim>\<open>propertyIsEnumerable\<close>; for every
  other socket id the read finds an own property or \<^verbatim>\<open>undefined\<close>.

  Display names and the \<^verbatim>\<open>to\<close> field are strings, as the event protocol types them;
  the payloads (\<^verbatim>\<open>offer\<close>, \<^verbatim>\<open>answer\<close>, \<^verbatim>\<open>candidate\<close>) are values of an
  arbitrary type \<open>'p\<close> that the relay never inspects.
\<close>

subsection \<open>Data\<close>

type_synonym socket_id = string

definition socket_io_id :: "socket_id \<Rightarrow> bool" where
  "socket_io_id sid \<longleftrightarrow> length sid = 20 \<and> sid \<noteq> ''propertyIsEnumerable''"

record user =
  username :: string
  id' :: socket_id

type_synonym registry = "(socket_id \<times> user) list"

text \<open>
  \<open>sockets\<close> is socket.io's own list of the sockets connected to the default namespace
  (extended on a transport connect, reduced on a transport close); \<open>users\<close> is the
  variable of that name in server.js.
\<close>

record server =
  sockets :: "socket_id list"
  users :: registry

datatype error = TypeError

text \<open>The events a client sends, with the fields the handlers destructure.\<close>

datatype 'p client_event =
    Join string
  | Offer string 'p
  | Answer string 'p
  | IceCandidate string 'p
  | RejectCall string
  | HangUp string

text \<open>
  The events the server emits: \<^verbatim>\<open>'update-users'\<close> with \<^verbatim>\<open>Object.values(users)\<close>,
  \<^verbatim>\<open>'offer'\<close> with \<^verbatim>\<open>{ from, offer }\<close>, \<^verbatim>\<open>'answer'\<close> with \<^verbatim>\<open>{ from, answer }\<close>,
  \<^verbatim>\<open>'ice-candidate'\<close> with \<^verbatim>\<open>{ from, candidate }\<close>, \<^verbatim>\<open>'call-rejected'\<close> with
  \<^verbatim>\<open>{ from }\<close> and \<^verbatim>\<open>'hang-up'\<close> with no argument.
\<close>

datatype 'p server_event =
    UpdateUsers "user list"
  | OfferFrom string 'p
  | AnswerFrom string 'p
  | IceCandidateFrom string 'p
  | CallRejected string
  | HangUpEvent

text \<open>An emission is one call of \<^verbatim>\<open>emit\<close>: the sockets it reaches and the event.\<close>

type_synonym 'p emission = "socket_id list \<times> 'p server_event"

type_synonym 'p outcome = "error + (server \<times> 'p emission list)"

subsection \<open>The JavaScript and socket.io primitives the handlers use\<close>

definition Object_keys :: "registry \<Rightarrow> socket_id list" where
  "Object_keys obj = map fst obj"

definition Object_values :: "registry \<Rightarrow> user list" where
  "Object_values obj = map snd obj"

text \<open>\<^verbatim>\<open>obj[key]\<close>: \<open>None\<close> is \<^verbatim>\<open>undefined\<close>.\<close>

definition get_prop :: "registry \<Rightarrow> socket_id \<Rightarrow> user option" where
  "get_prop obj key = map_of obj key"

text \<open>\<^verbatim>\<open>obj[key] = v\<close>: replaces the value in place, or appends a new property.\<close>

definition set_prop :: "socket_id \<Rightarrow> user \<Rightarrow> registry \<Rightarrow> registry" where
  "set_prop key v obj = AList.update key v obj"

text \<open>\<^verbatim>\<open>delete obj[key]\<close>: no effect when the property is absent.\<close>

definition delete_prop :: "socket_id \<Rightarrow> registry \<Rightarrow> registry" where
  "delete_prop key obj = AList.delete key obj"

text \<open>\<^verbatim>\<open>v.username\<close>: reading a property of \<^verbatim>\<open>undefined\<close> throws a TypeError.\<close>

definition username_of :: "user option \<Rightarrow> error + string" where
  "username_of v = (case v of None \<Rightarrow> Inl TypeError | Some u \<Rightarrow> Inr (username u))"

text \<open>
  \<^verbatim>\<open>Array.prototype.find\<close>: the first element the callback accepts, \<^verbatim>\<open>undefined\<close>
  (\<open>None\<close>) when there is none; an exception of the callback ends the search.
\<close>

fun find_js :: "('a \<Rightarrow> error + bool) \<Rightarrow> 'a list \<Rightarrow> error + 'a option" where
  "find_js p [] = Inr None"
| "find_js p (k # ks) =
     (case p k of
        Inl e \<Rightarrow> Inl e
      | Inr b \<Rightarrow> if b then Inr (Some k) else find_js p ks)"

text \<open>\<^verbatim>\<open>if (toSocket)\<close>: \<^verbatim>\<open>undefined\<close> and the empty string are falsy.\<close>

fun truthy :: "socket_id option \<Rightarrow> bool" where
  "truthy None = False"
| "truthy (Some k) = (k \<noteq> [])"

text \<open>\<^verbatim>\<open>io.emit(ev)\<close> reaches every connected socket.\<close>

definition io_emit :: "server \<Rightarrow> 'p server_event \<Rightarrow> 'p emission" where
  "io_emit s ev = (sockets s, ev)"

text \<open>
  \<^verbatim>\<open>socket.to(room).emit(ev)\<close> reaches the sockets in \<open>room\<close> except the sending socket
  itself. server.js never calls \<^verbatim>\<open>socket.join\<close>, so the only room a socket is in is the
  one socket.io names by the socket's own id.
\<close>

definition socket_to_emit :: "server \<Rightarrow> socket_id \<Rightarrow> socket_id \<Rightarrow> 'p server_event \<Rightarrow> 'p emission" where
  "socket_to_emit s sender room ev = (filter (\<lambda>r. r = room \<and> r \<noteq> sender) (sockets s), ev)"

subsection \<open>The handlers\<close>

text \<open>
  \<^verbatim>\<open>Object.keys(users).find(key => users[key].username === to)\<close>, the expression every
  negotiation handler starts with.
\<close>

definition toSocket_of :: "registry \<Rightarrow> string \<Rightarrow> error + socket_id option" where
  "toSocket_of us to =
     find_js (\<lambda>key. case username_of (get_prop us key) of
                      Inl e \<Rightarrow> Inl e
                    | Inr n \<Rightarrow> Inr (n = to))
       (Object_keys us)"

definition on_join :: "socket_id \<Rightarrow> string \<Rightarrow> server \<Rightarrow> 'p outcome" where
  "on_join sid uname s =
     (let s' = s\<lparr>users := set_prop sid \<lparr>username = uname, id' = sid\<rparr> (users s)\<rparr>
      in Inr (s', [io_emit s' (UpdateUsers (Object_values (users s')))]))"

definition on_offer :: "socket_id \<Rightarrow> string \<Rightarrow> 'p \<Rightarrow> server \<Rightarrow> 'p outcome" where
  "on_offer sid to offer s =
     (case toSocket_of (users s) to of
        Inl e \<Rightarrow> Inl e
      | Inr toSocket \<Rightarrow>
          if truthy toSocket then
            (case username_of (get_prop (users s) sid) of
               Inl e \<Rightarrow> Inl e
             | Inr from \<Rightarrow> Inr (s, [socket_to_emit s sid (the toSocket) (OfferFrom from offer)]))
          else Inr (s, []))"

definition on_answer :: "socket_id \<Rightarrow> string \<Rightarrow> 'p \<Rightarrow> server \<Rightarrow> 'p outcome" where
  "on_answer sid to answer s =
     (case toSocket_of (users s) to of
        Inl e \<Rightarrow> Inl e
      | Inr toSocket \<Rightarrow>
          if truthy toSocket then
            (case username_of (get_prop (users s) sid) of
               Inl e \<Rightarrow> Inl e
             | Inr from \<Rightarrow> Inr (s, [socket_to_emit s sid (the toSocket) (AnswerFrom from answer)]))
          else Inr (s, []))"

definition on_ice_candidate :: "socket_id \<Rightarrow> string \<Rightarrow> 'p \<Rightarrow> server \<Rightarrow> 'p outcome" where
  "on_ice_candidate sid to candidate s =
     (case toSocket_of (users s) to of
        Inl e \<Rightarrow> Inl e
      | Inr toSocket \<Rightarrow>
          if truthy toSocket then
            (case username_of (get_prop (users s) sid) of
               Inl e \<Rightarrow> Inl e
             | Inr from \<Rightarrow>
                 Inr (s, [socket_to_emit s sid (the toSocket) (IceCandidateFrom from candidate)]))
          else Inr (s, []))"

definition on_reject_call :: "socket_id \<Rightarrow> string \<Rightarrow> server \<Rightarrow> 'p outcome" where
  "on_reject_call sid to s =
     (case toSocket_of (users s) to of
        Inl e \<Rightarrow> Inl e
      | Inr toSocket \<Rightarrow>
          if truthy toSocket then
            (case username_of (get_prop (users s) sid) of
               Inl e \<Rightarrow> Inl e
             | Inr from \<Rightarrow> Inr (s, [socket_to_emit s sid (the toSocket) (CallRejected from)]))
          else Inr (s, []))"

definition on_hang_up :: "socket_id \<Rightarrow> string \<Rightarrow> server \<Rightarrow> 'p outcome" where
  "on_hang_up sid to s =
     (case toSocket_of (users s) to of
        Inl e \<Rightarrow> Inl e
      | Inr toSocket \<Rightarrow>
          if truthy toSocket then Inr (s, [socket_to_emit s sid (the toSocket) HangUpEvent])
          else Inr (s, []))"

definition on_disconnect :: "socket_id \<Rightarrow> server \<Rightarrow> 'p outcome" where
  "on_disconnect sid s =
     (let s' = s\<lparr>users := delete_prop sid (users s)\<rparr>
      in Inr (s', [io_emit s' (UpdateUsers (Object_values (users s')))]))"

text \<open>The dispatch of a received event to the handler registered for it.\<close>

fun on_event :: "socket_id \<Rightarrow> 'p client_event \<Rightarrow> server \<Rightarrow> 'p outcome" where
  "on_event sid (Join uname) s = on_join sid uname s"
| "on_event sid (Offer to offer) s = on_offer sid to offer s"
| "on_event sid (Answer to answer) s = on_answer sid to answer s"
| "on_event sid (IceCandidate to candidate) s = on_ice_candidate sid to candidate s"
| "on_event sid (RejectCall to) s = on_reject_call sid to s"
| "on_event sid (HangUp to) s = on_hang_up sid to s"

subsection \<open>Connections and traces\<close>

text \<open>
  What socket.io does around the handlers: a transport connect adds the new socket to the
  namespace and runs the \<^verbatim>\<open>'connection'\<close> callback, which only logs and registers
  the handlers; a received event runs its handler; a transport close first removes the
  socket from the namespace and its rooms and then fires \<^verbatim>\<open>'disconnect'\<close>.
\<close>

datatype 'p transport_event =
    Connection socket_id
  | Received socket_id "'p client_event"
  | Closed socket_id

fun step :: "'p transport_event \<Rightarrow> server \<Rightarrow> 'p outcome" where
  "step (Connection sid) s = Inr (s\<lparr>sockets := sockets s @ [sid]\<rparr>, [])"
| "step (Received sid ev) s = on_event sid ev s"
| "step (Closed sid) s = on_disconnect sid (s\<lparr>sockets := removeAll sid (sockets s)\<rparr>)"

definition initial :: server where
  "initial = \<lparr>sockets = [], users = []\<rparr>"

text \<open>
  A trace lists the transport events with the most recent one first. Running it gives the
  state reached and every emission made, oldest first; an exception thrown by a handler
  ends the run.
\<close>

fun run :: "'p transport_event list \<Rightarrow> 'p outcome" where
  "run [] = Inr (initial, [])"
| "run (e # evs) =
     (case run evs of
        Inl err \<Rightarrow> Inl err
      | Inr (s, log) \<Rightarrow>
          (case step e s of
             Inl err \<Rightarrow> Inl err
           | Inr (s', out) \<Rightarrow> Inr (s', log @ out)))"

text \<open>The \<^verbatim>\<open>'update-users'\<close> snapshots among some emissions, in the order emitted.\<close>

fun snapshots :: "'p emission list \<Rightarrow> user list list" where
  "snapshots [] = []"
| "snapshots ((rs, UpdateUsers snap) # out) = snap # snapshots out"
| "snapshots ((rs, ev) # out) = snapshots out"

text \<open>
  The \<^verbatim>\<open>'update-users'\<close> emissions among some emissions, each with the sockets it
  reaches, and the snapshots one socket receives.
\<close>

fun updates :: "'p emission list \<Rightarrow> (socket_id list \<times> user list) list" where
  "updates [] = []"
| "updates ((rs, UpdateUsers snap) # out) = (rs, snap) # updates out"
| "updates ((rs, ev) # out) = updates out"

definition snapshots_received :: "socket_id \<Rightarrow> 'p emission list \<Rightarrow> user list list" where
  "snapshots_received sid out = snapshots (filter (\<lambda>(rs, ev). sid \<in> set rs) out)"

text \<open>The events one socket receives from some emissions.\<close>

definition received_by :: "socket_id \<Rightarrow> 'p emission list \<Rightarrow> 'p server_event list" where
  "received_by sid out = map snd (filter (\<lambda>(rs, ev). sid \<in> set rs) out)"

text \<open>The \<^verbatim>\<open>from\<close> field of an emitted event, \<open>None\<close> when the event has none.\<close>

fun from_field :: "'p server_event \<Rightarrow> string option" where
  "from_field (UpdateUsers snap) = None"
| "from_field (OfferFrom n p) = Some n"
| "from_field (AnswerFrom n p) = Some n"
| "from_field (IceCandidateFrom n p) = Some n"
| "from_field (CallRejected n) = Some n"
| "from_field HangUpEvent = None"

subsection \<open>What the claims speak of\<close>

text \<open>
  The destination name of a negotiation message (\<open>None\<close> for \<^verbatim>\<open>join\<close>, which is
  not one), and the event the relay of a message makes of it for a sender name.
\<close>

fun destination :: "'p client_event \<Rightarrow> string option" where
  "destination (Join uname) = None"
| "destination (Offer to p) = Some to"
| "destination (Answer to p) = Some to"
| "destination (IceCandidate to p) = Some to"
| "destination (RejectCall to) = Some to"
| "destination (HangUp to) = Some to"

fun relayed :: "string \<Rightarrow> 'p client_event \<Rightarrow> 'p server_event" where
  "relayed n (Offer to p) = OfferFrom n p"
| "relayed n (Answer to p) = AnswerFrom n p"
| "relayed n (IceCandidate to p) = IceCandidateFrom n p"
| "relayed n (RejectCall to) = CallRejected n"
| "relayed n (HangUp to) = HangUpEvent"
| "relayed n (Join uname) = UpdateUsers []"

text \<open>
  The connections a trace leaves connected, and the display name of a connection that is
  connected and has joined: the name of its latest \<^verbatim>\<open>join\<close> since it connected.
  Both are read off the trace alone.
\<close>

fun connected :: "'p transport_event list \<Rightarrow> socket_id \<Rightarrow> bool" where
  "connected [] sid = False"
| "connected (Connection c # evs) sid = (c = sid \<or> connected evs sid)"
| "connected (Closed c # evs) sid = (c \<noteq> sid \<and> connected evs sid)"
| "connected (Received c ev # evs) sid = connected evs sid"

fun display_name :: "'p transport_event list \<Rightarrow> socket_id \<Rightarrow> string option" where
  "display_name [] sid = None"
| "display_name (Connection c # evs) sid = (if c = sid then None else display_name evs sid)"
| "display_name (Closed c # evs) sid = (if c = sid then None else display_name evs sid)"
| "display_name (Received c (Join n) # evs) sid = (if c = sid then Some n else display_name evs sid)"
| "display_name (Received c ev # evs) sid = display_name evs sid"

text \<open>
  The traces socket.io can produce: a new connection has a socket.io id that no connected
  socket has, and only a connected socket sends events or closes.
\<close>

fun well_formed :: "'p transport_event list \<Rightarrow> bool" where
  "well_formed [] = True"
| "well_formed (Connection c # evs) = (socket_io_id c \<and> \<not> connected evs c \<and> well_formed evs)"
| "well_formed (Received c ev # evs) = (connected evs c \<and> well_formed evs)"
| "well_formed (Closed c # evs) = (connected evs c \<and> well_formed evs)"

text \<open>
  The states the server can be in: the connected sockets are distinct and carry socket.io
  ids, and every property of \<^verbatim>\<open>users\<close> is keyed by the id of a connected socket and
  holds that id. Every state a well-formed trace reaches is one (\<open>run_server_inv\<close> below).
\<close>

definition server_inv :: "server \<Rightarrow> bool" where
  "server_inv s \<longleftrightarrow>
     distinct (sockets s) \<and> list_all socket_io_id (sockets s) \<and>
     distinct (map fst (users s)) \<and>
     list_all (\<lambda>(k, u). id' u = k \<and> k \<in> set (sockets s)) (users s)"

text \<open>
  The connections registered under a display name, in the order \<^verbatim>\<open>Object.keys\<close>
  lists them.
\<close>

definition holders :: "registry \<Rightarrow> string \<Rightarrow> socket_id list" where
  "holders us n = map fst (filter (\<lambda>(k, u). username u = n) us)"

text \<open>
  A trace of connects, joins and closes only, and the number of registry mutations (joins
  and closes) in a trace.
\<close>

fun presence_only :: "'p transport_event list \<Rightarrow> bool" where
  "presence_only [] = True"
| "presence_only (Received c (Join n) # evs) = presence_only evs"
| "presence_only (Received c ev # evs) = False"
| "presence_only (e # evs) = presence_only evs"

fun mutations :: "'p transport_event list \<Rightarrow> nat" where
  "mutations [] = 0"
| "mutations (Received c (Join n) # evs) = Suc (mutations evs)"
| "mutations (Closed c # evs) = Suc (mutations evs)"
| "mutations (e # evs) = mutations evs"

text \<open>
  The trace up to and including its most recent mutation: what has happened when the latest
  snapshot is broadcast.
\<close>

fun at_last_mutation :: "'p transport_event list \<Rightarrow> 'p transport_event list" where
  "at_last_mutation [] = []"
| "at_last_mutation (Received c (Join n) # evs) = Received c (Join n) # evs"
| "at_last_mutation (Closed c # evs) = Closed c # evs"
| "at_last_mutation (e # evs) = at_last_mutation evs"

subsection \<open>Example states and an example trace\<close>

definition id_A :: socket_id where "id_A = ''AAAAAAAAAAAAAAAAAAAA''"

definition id_B :: socket_id where "id_B = ''BBBBBBBBBBBBBBBBBBBB''"

definition id_C :: socket_id where "id_C = ''CCCCCCCCCCCCCCCCCCCC''"

definition id_D :: socket_id where "id_D = ''DDDDDDDDDDDDDDDDDDDD''"

definition three_clients :: server where
  "three_clients =
     \<lparr>sockets = [id_A, id_B, id_C],
      users = [(id_A, \<lparr>username = ''alice'', id' = id_A\<rparr>),
               (id_B, \<lparr>username = ''bob'', id' = id_B\<rparr>),
               (id_C, \<lparr>username = ''carol'', id' = id_C\<rparr>)]\<rparr>"

definition two_carols :: server where
  "two_carols =
     \<lparr>sockets = [id_A, id_B, id_C],
      users = [(id_B, \<lparr>username = ''carol'', id' = id_B\<rparr>),
               (id_C, \<lparr>username = ''carol'', id' = id_C\<rparr>),
               (id_A, \<lparr>username = ''alice'', id' = id_A\<rparr>)]\<rparr>"

definition bob_only :: server where
  "bob_only =
     \<lparr>sockets = [id_A, id_B],
      users = [(id_B, \<lparr>username = ''bob'', id' = id_B\<rparr>)]\<rparr>"

definition bob_alone :: server where
  "bob_alone = \<lparr>sockets = [id_B], users = [(id_B, \<lparr>username = ''bob'', id' = id_B\<rparr>)]\<rparr>"

definition session :: "string transport_event list" where
  "session =
     [Connection id_D, Closed id_B, Connection id_C, Received id_A (Join ''alice''),
      Received id_B (Join ''bob''), Received id_A (Join ''al''),
      Connection id_B, Connection id_A]"

lemmas ex_defs = three_clients_def two_carols_def bob_only_def bob_alone_def
  id_A_def id_B_def id_C_def id_D_def socket_io_id_def

lemmas handler_defs = on_offer_def on_answer_def on_ice_candidate_def on_reject_call_def
  on_hang_up_def toSocket_of_def Object_keys_def Object_values_def username_of_def get_prop_def
  socket_to_emit_def io_emit_def

section \<open>The passthrough endpoint\<close>

text \<open>
  The second server file (unnamed/part_000) is server.js with one more route,
  \<^verbatim>\<open>app.get('/proxy', async (req, res) => ...)\<close>. The handler awaits \<^verbatim>\<open>axios.get\<close>
  once, so it is modelled in two parts: \<open>proxy_begin\<close> runs up to the request and
  \<open>proxy_resume\<close> from the settled promise on. Both take and return the signaling state,
  which is in the scope of the handler. What axios hands back and what
  \<^verbatim>\<open>new URL(targetUrl).origin\<close> yields are inputs of the model: a rejected request is
  \<open>Inl\<close> of the error's message, and \<open>URL_origin\<close> gives the origin or the message of
  the error the constructor throws. \<^verbatim>\<open>response.data\<close> is a string, \<^verbatim>\<open>null\<close>,
  \<^verbatim>\<open>undefined\<close> or another value (a number, a boolean, an array or an object parsed
  from JSON), none of which has a \<^verbatim>\<open>replace\<close> method.
\<close>

record axios_config =
  headers :: "(string \<times> string) list"
  timeout :: nat
  maxRedirects :: nat

definition proxy_config :: axios_config where
  "proxy_config =
     \<lparr>headers =
        [(''User-Agent'', ''Mozilla/5.0 (Windows NT 10.0; Win64; x64) AppleWebKit/537.36 (KHTML, like Gecko) Chrome/91.0.4472.124 Safari/537.36''),
         (''Accept'', ''text/html,application/xhtml+xml,application/xml;q=0.9,image/webp,*/*;q=0.8''),
         (''Accept-Language'', ''en-US,en;q=0.5''),
         (''Accept-Encoding'', ''gzip, deflate, br''),
         (''Connection'', ''keep-alive''),
         (''Upgrade-Insecure-Requests'', ''1'')],
      timeout = 10000,
      maxRedirects = 5\<rparr>"

datatype axios_data = StringData string | NullData | UndefinedData | OtherData

text \<open>
  \<^verbatim>\<open>res.status(n).json({...})\<close> with the object's fields, and
  \<^verbatim>\<open>res.setHeader('Content-Type', 'text/html'); res.send(html)\<close>, whose status is 200.
\<close>

datatype http_response =
    JsonResponse nat "(string \<times> string) list"
  | HtmlResponse string

datatype proxy_step = Respond http_response | Fetch string axios_config

text \<open>
  \<^verbatim>\<open>String.prototype.replace\<close> expands the replacement string: \<^verbatim>\<open>$$\<close> is a dollar
  sign, \<^verbatim>\<open>$&\<close> the matched text, \<^verbatim>\<open>$`\<close> the text before the match and
  \<^verbatim>\<open>$'\<close> the text after it. The patterns of the handler have no capture groups, so
  every other use of \<^verbatim>\<open>$\<close> stands for itself.
\<close>

fun get_substitution :: "string \<Rightarrow> string \<Rightarrow> string \<Rightarrow> string \<Rightarrow> string" where
  "get_substitution matched preceding following (c # d # t) =
     (if c = CHR ''$'' \<and> d = CHR ''$'' then CHR ''$'' # get_substitution matched preceding following t
      else if c = CHR ''$'' \<and> d = CHR ''&'' then matched @ get_substitution matched preceding following t
      else if c = CHR ''$'' \<and> d = CHR 0x60 then preceding @ get_substitution matched preceding following t
      else if c = CHR ''$'' \<and> d = CHR 0x27 then following @ get_substitution matched preceding following t
      else c # get_substitution matched preceding following (d # t))"
| "get_substitution matched preceding following t = t"

text \<open>
  \<^verbatim>\<open>s.replace(/pat/g, tpl)\<close> for a pattern that is a fixed text: every match, from left
  to right and without overlap, is replaced. The fourth argument counts the characters of
  the current match that are still to be skipped; the third is the text already passed,
  which \<^verbatim>\<open>$`\<close> refers to.
\<close>

fun replace_all_from :: "string \<Rightarrow> string \<Rightarrow> string \<Rightarrow> nat \<Rightarrow> string \<Rightarrow> string" where
  "replace_all_from pat tpl preceding k [] = []"
| "replace_all_from pat tpl preceding (Suc k) (c # s) = replace_all_from pat tpl (preceding @ [c]) k s"
| "replace_all_from pat tpl preceding 0 (c # s) =
     (if prefix pat (c # s)
      then get_substitution pat preceding (drop (length pat) (c # s)) tpl @
           replace_all_from pat tpl (preceding @ [c]) (length pat - 1) s
      else c # replace_all_from pat tpl (preceding @ [c]) 0 s)"

definition replace_regex_g :: "string \<Rightarrow> string \<Rightarrow> string \<Rightarrow> string" where
  "replace_regex_g pat tpl s = replace_all_from pat tpl [] 0 s"

text \<open>
  \<^verbatim>\<open>s.replace('pat', tpl)\<close> with a string pattern (not empty): only the first occurrence
  is replaced.
\<close>

fun replace_first_from :: "string \<Rightarrow> string \<Rightarrow> string \<Rightarrow> string \<Rightarrow> string" where
  "replace_first_from pat tpl preceding [] = []"
| "replace_first_from pat tpl preceding (c # s) =
     (if prefix pat (c # s)
      then get_substitution pat preceding (drop (length pat) (c # s)) tpl @ drop (length pat) (c # s)
      else c # replace_first_from pat tpl (preceding @ [c]) s)"

definition replace_string :: "string \<Rightarrow> string \<Rightarrow> string \<Rightarrow> string" where
  "replace_string pat tpl s = replace_first_from pat tpl [] s"

definition proxy_error :: "string \<Rightarrow> http_response" where
  "proxy_error message =
     JsonResponse 500 [(''error'', ''Failed to fetch website''), (''details'', message)]"

definition proxy_begin :: "string option \<Rightarrow> server \<Rightarrow> server \<times> proxy_step" where
  "proxy_begin url s =
     (case url of
        None \<Rightarrow> (s, Respond (JsonResponse 400 [(''error'', ''URL parameter is required'')]))
      | Some targetUrl \<Rightarrow>
          if targetUrl = []
          then (s, Respond (JsonResponse 400 [(''error'', ''URL parameter is required'')]))
          else (s, Fetch targetUrl proxy_config))"

definition proxy_resume ::
  "(string \<Rightarrow> string + string) \<Rightarrow> string \<Rightarrow> string + axios_data \<Rightarrow> server \<Rightarrow> server \<times> http_response"
where
  \<open>proxy_resume URL_origin targetUrl fetched s =
     (case fetched of
        Inl message \<Rightarrow> (s, proxy_error message)
      | Inr data \<Rightarrow>
          (case URL_origin targetUrl of
             Inl message \<Rightarrow> (s, proxy_error message)
           | Inr baseUrl \<Rightarrow>
               (case data of
                  NullData \<Rightarrow>
                    (s, proxy_error ''Cannot read properties of null (reading 'replace')'')
                | UndefinedData \<Rightarrow>
                    (s, proxy_error ''Cannot read properties of undefined (reading 'replace')'')
                | OtherData \<Rightarrow> (s, proxy_error ''html.replace is not a function'')
                | StringData html0 \<Rightarrow>
                    (let html1 = replace_regex_g ''href="/'' (''href="'' @ baseUrl @ ''/'') html0;
                         html2 = replace_regex_g ''src="/'' (''src="'' @ baseUrl @ ''/'') html1;
                         html3 = replace_regex_g ''action="/'' (''action="'' @ baseUrl @ ''/'') html2;
                         html4 = replace_string ''<head>'' (''<head><base href="'' @ targetUrl @ ''">'') html3
                     in (s, HtmlResponse html4)))))\<close>

section \<open>Properties of the relay\<close>

subsection \<open>Resolving a display name\<close>

lemma find_js_entries:
  "(\<And>k u. (k, u) \<in> set ys \<Longrightarrow> map_of us k = Some u) \<Longrightarrow>
   find_js (\<lambda>key. case username_of (get_prop us key) of Inl e \<Rightarrow> Inl e | Inr n \<Rightarrow> Inr (n = to))
     (map fst ys) =
   Inr (case holders ys to of [] \<Rightarrow> None | h # hs \<Rightarrow> Some h)"
proof (induction ys)
  case Nil
  show ?case by (simp add: holders_def)
next
  case (Cons y ys)
  obtain k u where y: "y = (k, u)" by (cases y)
  have here: "map_of us k = Some u" using Cons.prems [of k u] by (simp add: y)
  have rest: "\<And>k u. (k, u) \<in> set ys \<Longrightarrow> map_of us k = Some u"
    using Cons.prems by simp
  show ?case
    using Cons.IH [OF rest] here
    by (simp add: y holders_def username_of_def get_prop_def)
qed

lemma toSocket_of_holders:
  assumes "distinct (map fst us)"
  shows "toSocket_of us to = Inr (case holders us to of [] \<Rightarrow> None | h # hs \<Rightarrow> Some h)"
  unfolding toSocket_of_def Object_keys_def
  by (rule find_js_entries) (simp add: assms)

lemma toSocket_of_unbound:
  assumes "to \<notin> set (map (\<lambda>(k, u). username u) us)"
  shows "toSocket_of us to = Inr None"
proof -
  have "\<And>ks. set ks \<subseteq> set (map fst us) \<Longrightarrow>
    find_js (\<lambda>key. case username_of (get_prop us key) of Inl e \<Rightarrow> Inl e | Inr n \<Rightarrow> Inr (n = to)) ks
      = Inr None"
  proof -
    fix ks show "set ks \<subseteq> set (map fst us) \<Longrightarrow>
    find_js (\<lambda>key. case username_of (get_prop us key) of Inl e \<Rightarrow> Inl e | Inr n \<Rightarrow> Inr (n = to)) ks
      = Inr None"
    proof (induction ks)
      case Nil show ?case by simp
    next
      case (Cons k ks)
      then have "k \<in> fst ` set us" by auto
      then obtain u where u: "map_of us k = Some u"
        by (metis domD dom_map_of_conv_image_fst)
      then have "(k, u) \<in> set us" by (rule map_of_SomeD)
      then have "username u \<noteq> to" using assms by force
      then show ?case using Cons u by (simp add: username_of_def get_prop_def)
    qed
  qed
  then show ?thesis unfolding toSocket_of_def Object_keys_def by simp
qed

lemma toSocket_of_SomeD:
  assumes "toSocket_of us to = Inr (Some d)"
  shows "\<exists>u. get_prop us d = Some u \<and> username u = to"
proof -
  have "\<And>ks. find_js (\<lambda>key. case username_of (get_prop us key) of Inl e \<Rightarrow> Inl e | Inr n \<Rightarrow> Inr (n = to)) ks
      = Inr (Some d) \<Longrightarrow> \<exists>u. get_prop us d = Some u \<and> username u = to"
  proof -
    fix ks show "find_js (\<lambda>key. case username_of (get_prop us key) of Inl e \<Rightarrow> Inl e | Inr n \<Rightarrow> Inr (n = to)) ks
      = Inr (Some d) \<Longrightarrow> \<exists>u. get_prop us d = Some u \<and> username u = to"
      by (induction ks) (auto simp: username_of_def split: sum.splits option.splits if_splits)
  qed
  then show ?thesis using assms unfolding toSocket_of_def by blast
qed

subsection \<open>The invariant of the server state\<close>

lemma filter_room:
  "distinct xs \<Longrightarrow> filter (\<lambda>r. r = d \<and> r \<noteq> sid) xs = (if d \<in> set xs \<and> d \<noteq> sid then [d] else [])"
  by (induction xs) auto

lemma server_inv_key:
  assumes "server_inv s" and "get_prop (users s) k = Some u"
  shows "k \<in> set (sockets s) \<and> id' u = k \<and> socket_io_id k"
proof -
  have "(k, u) \<in> set (users s)" using assms(2) by (simp add: get_prop_def map_of_SomeD)
  then have "id' u = k \<and> k \<in> set (sockets s)"
    using assms(1) by (auto simp: server_inv_def list_all_iff)
  moreover have "\<forall>x \<in> set (sockets s). socket_io_id x"
    using assms(1) by (simp add: server_inv_def list_all_iff)
  ultimately show ?thesis by blast
qed

lemma update_in_place:
  "distinct (map fst al) \<Longrightarrow> map_of al k = Some old \<Longrightarrow>
   AList.update k v al = map (\<lambda>(k', u). if k' = k then (k', v) else (k', u)) al"
proof (induction al)
  case Nil
  then show ?case by simp
next
  case (Cons p al)
  obtain k' u where p: "p = (k', u)" by (cases p)
  show ?case
  proof (cases "k' = k")
    case True
    have "k \<notin> fst ` set al" using Cons.prems(1) by (simp add: p True)
    then have "map (\<lambda>(k', u). if k' = k then (k', v) else (k', u)) al = al"
      by (induction al) auto
    then show ?thesis by (simp add: p True)
  next
    case False
    then show ?thesis using Cons by (simp add: p)
  qed
qed

lemma set_update_subset: "set (AList.update k v al) \<subseteq> insert (k, v) (set al)"
  by (induction al) auto

lemma set_delete_subset: "set (AList.delete k al) \<subseteq> {p \<in> set al. fst p \<noteq> k}"
  by (induction al) auto

lemma on_join_inv:
  assumes "server_inv s" and "sid \<in> set (sockets s)"
  shows "server_inv (s\<lparr>users := set_prop sid \<lparr>username = n, id' = sid\<rparr> (users s)\<rparr>)"
proof -
  have "distinct (map fst (AList.update sid \<lparr>username = n, id' = sid\<rparr> (users s)))"
    using assms(1) by (simp add: server_inv_def distinct_update)
  moreover have "\<forall>(k, u) \<in> set (AList.update sid \<lparr>username = n, id' = sid\<rparr> (users s)).
          id' u = k \<and> k \<in> set (sockets s)"
    using set_update_subset [of sid "\<lparr>username = n, id' = sid\<rparr>" "users s"] assms
    by (auto simp: server_inv_def list_all_iff)
  ultimately show ?thesis
    using assms(1) by (simp add: server_inv_def set_prop_def list_all_iff)
qed

lemma closed_inv:
  assumes "server_inv s"
  shows "server_inv (s\<lparr>sockets := removeAll sid (sockets s),
                       users := delete_prop sid (users s)\<rparr>)"
proof -
  have "distinct (map fst (AList.delete sid (users s)))"
    using assms by (simp add: server_inv_def distinct_delete)
  moreover have "\<forall>(k, u) \<in> set (AList.delete sid (users s)).
          id' u = k \<and> k \<in> set (removeAll sid (sockets s))"
    using set_delete_subset [of sid "users s"] assms
    by (auto simp: server_inv_def list_all_iff)
  ultimately show ?thesis
    using assms by (simp add: server_inv_def delete_prop_def list_all_iff distinct_removeAll)
qed

lemma connection_inv:
  assumes "server_inv s" and "socket_io_id c" and "c \<notin> set (sockets s)"
  shows "server_inv (s\<lparr>sockets := sockets s @ [c]\<rparr>)"
  using assms by (auto simp: server_inv_def list_all_iff)

subsection \<open>One negotiation message\<close>

lemma on_event_resolved:
  assumes "destination m = Some to" and "toSocket_of (users s) to = Inr (Some d)"
    and "d \<noteq> []" and "get_prop (users s) sid = Some u"
  shows "on_event sid m s = Inr (s, [socket_to_emit s sid d (relayed (username u) m)])"
  using assms
  by (cases m)
     (simp_all add: on_offer_def on_answer_def on_ice_candidate_def on_reject_call_def
        on_hang_up_def username_of_def)

lemma on_event_resolved_inv:
  assumes "server_inv s" and "destination m = Some to"
    and "toSocket_of (users s) to = Inr (Some d)" and "get_prop (users s) sid = Some u"
  shows "on_event sid m s = Inr (s, [(if d = sid then [] else [d], relayed (username u) m)])"
proof -
  obtain v where v: "get_prop (users s) d = Some v"
    using toSocket_of_SomeD [OF assms(3)] by blast
  have d: "d \<in> set (sockets s)" "socket_io_id d"
    using server_inv_key [OF assms(1) v] by simp_all
  then have ne: "d \<noteq> []" by (auto simp: socket_io_id_def)
  have "distinct (sockets s)" using assms(1) by (simp add: server_inv_def)
  then have "filter (\<lambda>r. r = d \<and> r \<noteq> sid) (sockets s) = (if d = sid then [] else [d])"
    using d(1) by (simp add: filter_room)
  then show ?thesis
    using on_event_resolved [OF assms(2) assms(3) ne assms(4)]
    by (simp add: socket_to_emit_def)
qed

lemma received_by_single:
  "received_by c [(rs, ev)] = (if c \<in> set rs then [ev] else [])"
  by (simp add: received_by_def)

lemma negotiation_never_to_sender:
  assumes "destination m = Some to" and "on_event sid m s = Inr (s', out)"
  shows "received_by sid out = []"
  using assms
  by (cases m)
     (auto simp: on_offer_def on_answer_def on_ice_candidate_def on_reject_call_def
        on_hang_up_def socket_to_emit_def received_by_def
        split: sum.splits if_splits)

lemma negotiation_state:
  assumes "destination m = Some to" and "on_event sid m s = Inr (s', out)"
  shows "s' = s \<and> snapshots out = []"
  using assms
  by (cases m)
     (auto simp: on_offer_def on_answer_def on_ice_candidate_def on_reject_call_def
        on_hang_up_def socket_to_emit_def
        split: sum.splits if_splits)

lemma destination_cases: "(\<exists>n. m = Join n) \<or> (\<exists>to. destination m = Some to)"
  by (cases m) simp_all

subsection \<open>Traces\<close>

lemma snapshots_append: "snapshots (xs @ ys) = snapshots xs @ snapshots ys"
  by (induction xs rule: snapshots.induct) simp_all

lemma run_invariant:
  "well_formed evs \<Longrightarrow> run evs = Inr (s, log) \<Longrightarrow>
     server_inv s \<and> (\<forall>sid. sid \<in> set (sockets s) \<longleftrightarrow> connected evs sid) \<and>
     (\<forall>sid. get_prop (users s) sid =
         map_option (\<lambda>n. \<lparr>username = n, id' = sid\<rparr>) (display_name evs sid)) \<and>
     (snapshots log \<noteq> [] \<longrightarrow> last (snapshots log) = Object_values (users s)) \<and>
     length (snapshots log) = mutations evs"
proof (induction evs arbitrary: s log)
  case Nil
  then show ?case by (auto simp: initial_def server_inv_def get_prop_def)
next
  case (Cons e evs)
  from Cons.prems(2) obtain s0 log0 out where
    r: "run evs = Inr (s0, log0)" and st: "step e s0 = Inr (s, out)" and lg: "log = log0 @ out"
    by (auto split: sum.splits prod.splits)
  have wf: "well_formed evs" using Cons.prems(1) by (cases e) simp_all
  note IH = Cons.IH [OF wf r]
  have inv0: "server_inv s0" using IH by simp
  have con0: "\<And>sid. sid \<in> set (sockets s0) \<longleftrightarrow> connected evs sid" using IH by simp
  have usr0: "\<And>sid. get_prop (users s0) sid =
         map_option (\<lambda>n. \<lparr>username = n, id' = sid\<rparr>) (display_name evs sid)" using IH by simp
  have snp0: "snapshots log0 \<noteq> [] \<Longrightarrow> last (snapshots log0) = Object_values (users s0)"
    using IH by simp
  have len0: "length (snapshots log0) = mutations evs" using IH by simp
  show ?case
  proof (cases e)
    case (Connection c)
    have c: "socket_io_id c" "c \<notin> set (sockets s0)"
      using Cons.prems(1) con0 by (simp_all add: Connection)
    have s: "s = s0\<lparr>sockets := sockets s0 @ [c]\<rparr>" "out = []"
      using st by (auto simp: Connection)
    have "get_prop (users s0) c = None"
      using c(2) server_inv_key [OF inv0, of c] by (cases "get_prop (users s0) c") auto
    then have dn: "display_name evs c = None" using usr0 [of c] by simp
    have 1: "server_inv s" unfolding s by (rule connection_inv [OF inv0 c])
    have 2: "\<forall>sid. sid \<in> set (sockets s) \<longleftrightarrow> connected (e # evs) sid"
      using con0 by (auto simp: s Connection)
    have 3: "\<forall>sid. get_prop (users s) sid =
         map_option (\<lambda>n. \<lparr>username = n, id' = sid\<rparr>) (display_name (e # evs) sid)"
      using usr0 dn by (simp add: s Connection)
    have 4: "snapshots log \<noteq> [] \<longrightarrow> last (snapshots log) = Object_values (users s)"
      using snp0 by (simp add: s lg)
    have 5: "length (snapshots log) = mutations (e # evs)"
      using len0 by (simp add: s lg Connection)
    show ?thesis using 1 2 3 4 5 by blast
  next
    case (Closed c)
    have s: "s = s0\<lparr>sockets := removeAll c (sockets s0), users := delete_prop c (users s0)\<rparr>"
      "out = [(removeAll c (sockets s0), UpdateUsers (Object_values (delete_prop c (users s0))))]"
      using st by (simp_all add: Closed on_disconnect_def Let_def io_emit_def)
    have 1: "server_inv s" unfolding s by (rule closed_inv [OF inv0])
    have 2: "\<forall>sid. sid \<in> set (sockets s) \<longleftrightarrow> connected (e # evs) sid"
      using con0 by (auto simp: s Closed)
    have 3: "\<forall>sid. get_prop (users s) sid =
         map_option (\<lambda>n. \<lparr>username = n, id' = sid\<rparr>) (display_name (e # evs) sid)"
      using usr0 by (simp add: s Closed get_prop_def delete_prop_def delete_conv')
    have 4: "snapshots log \<noteq> [] \<longrightarrow> last (snapshots log) = Object_values (users s)"
      by (simp add: s lg snapshots_append)
    have 5: "length (snapshots log) = mutations (e # evs)"
      using len0 by (simp add: s lg Closed snapshots_append)
    show ?thesis using 1 2 3 4 5 by blast
  next
    case (Received c m)
    have c: "c \<in> set (sockets s0)" using Cons.prems(1) con0 by (simp add: Received)
    from destination_cases [of m] show ?thesis
    proof (elim disjE exE)
      fix n assume m: "m = Join n"
      have s: "s = s0\<lparr>users := set_prop c \<lparr>username = n, id' = c\<rparr> (users s0)\<rparr>"
        "out = [(sockets s0, UpdateUsers (Object_values (set_prop c \<lparr>username = n, id' = c\<rparr> (users s0))))]"
        using st by (simp_all add: Received m on_join_def Let_def io_emit_def)
      have 1: "server_inv s" unfolding s by (rule on_join_inv [OF inv0 c])
      have 2: "\<forall>sid. sid \<in> set (sockets s) \<longleftrightarrow> connected (e # evs) sid"
        using con0 by (simp add: s Received)
      have 3: "\<forall>sid. get_prop (users s) sid =
           map_option (\<lambda>n. \<lparr>username = n, id' = sid\<rparr>) (display_name (e # evs) sid)"
        using usr0 by (simp add: s Received m get_prop_def set_prop_def update_conv')
      have 4: "snapshots log \<noteq> [] \<longrightarrow> last (snapshots log) = Object_values (users s)"
        by (simp add: s lg snapshots_append)
      have 5: "length (snapshots log) = mutations (e # evs)"
        using len0 by (simp add: s lg Received m snapshots_append)
      show ?thesis using 1 2 3 4 5 by blast
    next
      fix to assume d: "destination m = Some to"
      have "on_event c m s0 = Inr (s, out)" using st by (simp add: Received)
      from negotiation_state [OF d this] have s: "s = s0" "snapshots out = []" by simp_all
      have e: "display_name (e # evs) = display_name evs"
        "mutations (e # evs) = mutations evs"
        "connected (e # evs) = connected evs"
        using d by (cases m; simp add: Received fun_eq_iff)+
      show ?thesis
        using inv0 con0 usr0 snp0 len0 by (simp add: s lg e snapshots_append)
    qed
  qed
qed

lemma snapshots_updates: "snapshots out = map snd (updates out)"
  by (induction out rule: updates.induct) simp_all

lemma updates_append: "updates (xs @ ys) = updates xs @ updates ys"
  by (induction xs rule: updates.induct) simp_all

lemma updates_Nil_filter: "updates out = [] \<Longrightarrow> updates (filter P out) = []"
  by (induction out rule: updates.induct) (simp_all split: if_splits)

lemma last_snapshot_received:
  "updates out \<noteq> [] \<Longrightarrow> last (updates out) = (rs, snap) \<Longrightarrow> sid \<in> set rs \<Longrightarrow>
   snapshots_received sid out \<noteq> [] \<and> last (snapshots_received sid out) = snap"
proof (induction out rule: updates.induct)
  case 1
  then show ?case by simp
next
  case (2 rs' snap' out)
  show ?case
  proof (cases "updates out = []")
    case True
    then have "snapshots (filter (\<lambda>(rs, ev). sid \<in> set rs) out) = []"
      by (simp add: snapshots_updates updates_Nil_filter)
    then show ?thesis using 2 True by (simp add: snapshots_received_def)
  next
    case False
    then have "snapshots_received sid out \<noteq> [] \<and> last (snapshots_received sid out) = snap"
      using 2 by simp
    then show ?thesis by (simp add: snapshots_received_def)
  qed
qed (simp_all add: snapshots_received_def)

lemma at_last_mutation_connected:
  "connected (at_last_mutation evs) sid \<Longrightarrow> connected evs sid"
  by (induction evs rule: at_last_mutation.induct) auto

lemma connected_later_not_joined:
  "connected evs sid \<Longrightarrow> \<not> connected (at_last_mutation evs) sid \<Longrightarrow> display_name evs sid = None"
  by (induction evs rule: at_last_mutation.induct) auto

lemma run_server_inv: "well_formed evs \<Longrightarrow> run evs = Inr (s, log) \<Longrightarrow> server_inv s"
  using run_invariant by blast

lemma run_updates:
  "well_formed evs \<Longrightarrow> run evs = Inr (s, log) \<Longrightarrow>
     length (updates log) = mutations evs \<and>
     (updates log \<noteq> [] \<longrightarrow>
        distinct (fst (last (updates log))) \<and>
        set (fst (last (updates log))) = {sid. connected (at_last_mutation evs) sid} \<and>
        snd (last (updates log)) = Object_values (users s))"
proof (induction evs arbitrary: s log)
  case Nil
  then show ?case by simp
next
  case (Cons e evs)
  from Cons.prems(2) obtain s0 log0 out where
    r: "run evs = Inr (s0, log0)" and st: "step e s0 = Inr (s, out)" and lg: "log = log0 @ out"
    by (auto split: sum.splits prod.splits)
  have wf: "well_formed evs" using Cons.prems(1) by (cases e) simp_all
  note IH = Cons.IH [OF wf r]
  have inv0: "server_inv s0" by (rule run_server_inv [OF wf r])
  have d0: "distinct (sockets s0)" using inv0 by (simp add: server_inv_def)
  have con0: "\<And>sid. sid \<in> set (sockets s0) \<longleftrightarrow> connected evs sid"
    using run_invariant [OF wf r] by simp
  show ?case
  proof (cases e)
    case (Connection c)
    have s: "s = s0\<lparr>sockets := sockets s0 @ [c]\<rparr>" "out = []"
      using st by (auto simp: Connection)
    show ?thesis using IH by (simp add: s lg Connection)
  next
    case (Closed c)
    have s: "s = s0\<lparr>sockets := removeAll c (sockets s0), users := delete_prop c (users s0)\<rparr>"
      "out = [(removeAll c (sockets s0), UpdateUsers (Object_values (delete_prop c (users s0))))]"
      using st by (simp_all add: Closed on_disconnect_def Let_def io_emit_def)
    have "set (removeAll c (sockets s0)) = {sid. connected (Closed c # evs) sid}"
      using con0 by auto
    then show ?thesis
      using IH d0 by (simp add: s lg Closed updates_append distinct_removeAll)
  next
    case (Received c m)
    from destination_cases [of m] show ?thesis
    proof (elim disjE exE)
      fix n assume m: "m = Join n"
      have s: "s = s0\<lparr>users := set_prop c \<lparr>username = n, id' = c\<rparr> (users s0)\<rparr>"
        "out = [(sockets s0, UpdateUsers (Object_values (set_prop c \<lparr>username = n, id' = c\<rparr> (users s0))))]"
        using st by (simp_all add: Received m on_join_def Let_def io_emit_def)
      have "set (sockets s0) = {sid. connected (Received c (Join n) # evs) sid}"
        using con0 by auto
      then show ?thesis
        using IH d0 by (simp add: s lg Received m updates_append)
    next
      fix to assume d: "destination m = Some to"
      have ev: "on_event c m s0 = Inr (s, out)" using st by (simp add: Received)
      from negotiation_state [OF d ev] have s: "s = s0" "snapshots out = []" by simp_all
      then have u: "updates out = []" by (simp add: snapshots_updates)
      have e: "at_last_mutation (e # evs) = at_last_mutation evs"
        "mutations (e # evs) = mutations evs"
        using d by (cases m; simp add: Received)+
      show ?thesis using IH by (simp add: s lg e u updates_append)
    qed
  qed
qed

lemma presence_only_runs: "presence_only evs \<Longrightarrow> \<exists>s log. run evs = Inr (s, log)"
proof (induction evs)
  case Nil
  show ?case by simp
next
  case (Cons e evs)
  have "presence_only evs"
  proof (cases e)
    case (Received c m)
    then show ?thesis using Cons.prems by (cases m) simp_all
  qed (use Cons.prems in simp_all)
  then obtain s log where r: "run evs = Inr (s, log)" using Cons.IH by blast
  show ?case
  proof (cases e)
    case (Connection c)
    then show ?thesis using r by simp
  next
    case (Closed c)
    then show ?thesis using r by (simp add: on_disconnect_def Let_def)
  next
    case (Received c m)
    then obtain n where "m = Join n" using Cons.prems by (cases m) simp_all
    then show ?thesis using r Received by (simp add: on_join_def Let_def)
  qed
qed

lemma snapshot_of_users:
  assumes "server_inv s"
  shows "distinct (map id' (Object_values (users s)))"
    and "\<lparr>username = n, id' = sid\<rparr> \<in> set (Object_values (users s)) \<longleftrightarrow>
           get_prop (users s) sid = Some \<lparr>username = n, id' = sid\<rparr>"
    and "length (Object_values (users s)) = card {sid. get_prop (users s) sid \<noteq> None}"
proof -
  have d: "distinct (map fst (users s))" using assms by (simp add: server_inv_def)
  have k: "\<And>k u. (k, u) \<in> set (users s) \<Longrightarrow> id' u = k"
    using assms by (auto simp: server_inv_def list_all_iff)
  have eq: "map (id' \<circ> snd) (users s) = map fst (users s)"
    using k by auto
  show "distinct (map id' (Object_values (users s)))"
    unfolding Object_values_def map_map eq by (rule d)
  show "\<lparr>username = n, id' = sid\<rparr> \<in> set (Object_values (users s)) \<longleftrightarrow>
           get_prop (users s) sid = Some \<lparr>username = n, id' = sid\<rparr>"
  proof
    assume "\<lparr>username = n, id' = sid\<rparr> \<in> set (Object_values (users s))"
    then obtain k where "(k, \<lparr>username = n, id' = sid\<rparr>) \<in> set (users s)"
      by (auto simp: Object_values_def)
    moreover from this have "k = sid" using k by fastforce
    ultimately show "get_prop (users s) sid = Some \<lparr>username = n, id' = sid\<rparr>"
      using d by (simp add: get_prop_def)
  next
    assume "get_prop (users s) sid = Some \<lparr>username = n, id' = sid\<rparr>"
    then have "(sid, \<lparr>username = n, id' = sid\<rparr>) \<in> set (users s)"
      by (simp add: get_prop_def map_of_SomeD)
    then show "\<lparr>username = n, id' = sid\<rparr> \<in> set (Object_values (users s))"
      by (force simp: Object_values_def)
  qed
  have "{sid. get_prop (users s) sid \<noteq> None} = set (map fst (users s))"
    by (auto simp: get_prop_def map_of_eq_None_iff)
  then show "length (Object_values (users s)) = card {sid. get_prop (users s) sid \<noteq> None}"
    using distinct_card [OF d] by (simp add: Object_values_def)
qed

lemma display_name_connected:
  "well_formed evs \<Longrightarrow> display_name evs sid = Some n \<Longrightarrow> connected evs sid"
  by (induction evs sid rule: display_name.induct) (auto split: if_splits)

subsection \<open>The passthrough endpoint\<close>

text \<open>
  What the handler does apart from rewriting the document: a url parameter that is missing
  or empty is answered with status 400; otherwise the URL is requested with
  \<^verbatim>\<open>timeout: 10000\<close> and \<^verbatim>\<open>maxRedirects: 5\<close>; a failed request is answered with status
  500 and the error's message; and the signaling state is returned as it was.
\<close>

lemma passthrough_request_and_failure:
  "proxy_begin None s = (s, Respond (JsonResponse 400 [(''error'', ''URL parameter is required'')])) \<and>
   proxy_begin (Some []) s =
     (s, Respond (JsonResponse 400 [(''error'', ''URL parameter is required'')])) \<and>
   (targetUrl \<noteq> [] \<longrightarrow> proxy_begin (Some targetUrl) s = (s, Fetch targetUrl proxy_config)) \<and>
   timeout proxy_config = 10000 \<and> maxRedirects proxy_config = 5 \<and>
   proxy_resume URL_origin targetUrl (Inl message) s =
     (s, JsonResponse 500 [(''error'', ''Failed to fetch website''), (''details'', message)]) \<and>
   fst (proxy_begin url s) = s \<and> fst (proxy_resume URL_origin targetUrl fetched s) = s"
  by (simp add: proxy_begin_def proxy_config_def proxy_resume_def proxy_error_def Let_def
      split: option.splits sum.splits axios_data.splits)

text \<open>
  The three replacements look for the texts \<^verbatim>\<open>href="/\<close>, \<^verbatim>\<open>src="/\<close> and
  \<^verbatim>\<open>action="/\<close>, so a protocol-relative link, which begins with two slashes, is rewritten
  as well and no longer names its host.
\<close>

lemma protocol_relative_link_is_rewritten:
  \<open>proxy_resume (\<lambda>u. Inr ''http://example.com'') ''http://example.com/a''
       (Inr (StringData ''<head></head><script src="//cdn.example.org/x.js">'')) initial =
     (initial, HtmlResponse ''<head><base href="http://example.com/a"></head><script src="http://example.com//cdn.example.org/x.js">'')\<close>
  by (simp add: proxy_resume_def replace_regex_g_def replace_string_def)

text \<open>
  The URL and the origin are used as replacement strings, so their dollar patterns are
  expanded: a URL with \<^verbatim>\<open>$&\<close> in it gives a \<^verbatim>\<open><base>\<close> tag whose \<^verbatim>\<open>href\<close> is
  not the URL.
\<close>

lemma dollar_pattern_in_url_is_expanded:
  \<open>proxy_resume (\<lambda>u. Inr ''http://example.com'') ''http://example.com/?q=$&''
       (Inr (StringData ''<head></head>'')) initial =
     (initial, HtmlResponse ''<head><base href="http://example.com/?q=<head>"></head>'')\<close>
  by (simp add: proxy_resume_def replace_regex_g_def replace_string_def)

section \<open>The claims\<close>

text \<open>
  Claim C1 (relay before join). The claim says that a negotiation message from a connection
  that has not joined is still delivered, with an absent \<^verbatim>\<open>from\<close>. In server.js the
  handlers of \<^verbatim>\<open>offer\<close>, \<^verbatim>\<open>answer\<close>, \<^verbatim>\<open>ice-candidate\<close> and
  \<^verbatim>\<open>reject-call\<close> evaluate \<^verbatim>\<open>users[socket.id].username\<close> once the destination has
  resolved; for a sender without a record that reads a property of \<^verbatim>\<open>undefined\<close> and
  throws before anything is emitted. Only \<^verbatim>\<open>hang-up\<close>, which never reads the sender's
  record, is delivered. Here the socket \<open>id_A\<close> is connected and has not joined, and
  \<open>id_B\<close> is registered as bob.
\<close>

theorem relay_before_join_throws:
  "on_event id_A (Offer ''bob'' ''sdp'') bob_only = Inl TypeError \<and>
   on_event id_A (Answer ''bob'' ''sdp'') bob_only = Inl TypeError \<and>
   on_event id_A (IceCandidate ''bob'' ''candidate'') bob_only = Inl TypeError \<and>
   on_event id_A (RejectCall ''bob'' :: string client_event) bob_only = Inl TypeError \<and>
   on_event id_A (HangUp ''bob'' :: string client_event) bob_only =
     Inr (bob_only, [([id_B], HangUpEvent)])"
  by (simp add: handler_defs ex_defs)

text \<open>
  Claim C2 (unicast isolation). A joined connection \<open>a\<close> named \<open>na\<close> sends an offer
  addressed to \<open>nb\<close>, and exactly one connection \<open>b\<close> is registered under \<open>nb\<close>
  (the claim's alice and bob; the names differ). The handler makes a single emission, which
  reaches \<open>b\<close> only and carries the sender's name and the payload as sent; every other
  connection receives nothing, and the state is unchanged.
\<close>

theorem unicast_offer:
  assumes "server_inv s" and "get_prop (users s) a = Some \<lparr>username = na, id' = a\<rparr>"
    and "holders (users s) nb = [b]" and "na \<noteq> nb"
  shows "\<exists>out. on_offer a nb P s = Inr (s, out) \<and> out = [([b], OfferFrom na P)] \<and>
           received_by b out = [OfferFrom na P] \<and>
           (\<forall>c. c \<noteq> b \<longrightarrow> received_by c out = [])"
proof -
  have "distinct (map fst (users s))" using assms(1) by (simp add: server_inv_def)
  then have r: "toSocket_of (users s) nb = Inr (Some b)"
    using assms(3) by (simp add: toSocket_of_holders)
  obtain v where v: "get_prop (users s) b = Some v" "username v = nb"
    using toSocket_of_SomeD [OF r] by blast
  have ne: "b \<noteq> a" using v assms(2,4) by auto
  have "on_event a (Offer nb P) s = Inr (s, [([b], OfferFrom na P)])"
    using on_event_resolved_inv [OF assms(1) _ r assms(2), of "Offer nb P"] ne by simp
  then show ?thesis by (simp add: received_by_single)
qed

theorem unicast_offer_witness:
  "server_inv three_clients \<and>
   get_prop (users three_clients) id_A = Some \<lparr>username = ''alice'', id' = id_A\<rparr> \<and>
   holders (users three_clients) ''bob'' = [id_B] \<and>
   on_offer id_A ''bob'' ''sdp'' three_clients =
     Inr (three_clients, [([id_B], OfferFrom ''alice'' ''sdp'')]) \<and>
   received_by id_C [([id_B], OfferFrom ''alice'' ''sdp'')] = []"
proof -
  have h1: "server_inv three_clients" by (simp add: server_inv_def ex_defs)
  have h2: "get_prop (users three_clients) id_A = Some \<lparr>username = ''alice'', id' = id_A\<rparr>"
    by (simp add: get_prop_def ex_defs)
  have h3: "holders (users three_clients) ''bob'' = [id_B]" by (simp add: holders_def ex_defs)
  have h4: "''alice'' \<noteq> ''bob''" by simp
  have ne: "id_C \<noteq> id_B" by (simp add: ex_defs)
  from unicast_offer [OF h1 h2 h3 h4, of "''sdp''"] ne h1 h2 h3 show ?thesis by auto
qed

text \<open>
  Claim C3 (silent drop). A negotiation message of any of the five kinds whose destination
  name no registered connection bears: the handler returns normally, emits nothing to
  anybody (the sender included) and leaves the state as it was. The sender need not have
  joined.
\<close>

theorem unbound_destination_dropped:
  assumes "destination m = Some to"
    and "to \<notin> set (map (\<lambda>(k, u). username u) (users s))"
  shows "on_event sid m s = Inr (s, [])"
  using assms(1) toSocket_of_unbound [OF assms(2)]
  by (cases m)
     (simp_all add: on_offer_def on_answer_def on_ice_candidate_def on_reject_call_def
        on_hang_up_def)

theorem unbound_witness:
  "destination (Offer ''nobody'' ''sdp'') = Some ''nobody'' \<and>
   ''nobody'' \<notin> set (map (\<lambda>(k, u). username u) (users three_clients)) \<and>
   on_event id_A (Offer ''nobody'' ''sdp'') three_clients = Inr (three_clients, [])"
proof -
  have h1: "destination (Offer ''nobody'' ''sdp'') = Some ''nobody''" by simp
  have h2: "''nobody'' \<notin> set (map (\<lambda>(k, u). username u) (users three_clients))"
    by (simp add: ex_defs)
  from unbound_destination_dropped [OF h1 h2, of id_A] h1 h2 show ?thesis by simp
qed

text \<open>
  Claim C4 (presence correctness). For every trace socket.io can produce: a trace of
  connects, joins and closes never throws, and every join and every close makes one
  \<^verbatim>\<open>'update-users'\<close> emission. The emission of the most recent mutation reaches exactly
  the sockets connected when it is made; they are all still connected, for each of them it
  is the snapshot received last, and a connected socket it did not reach connected later
  and has not joined. Its snapshot has one record per connection that is connected and has
  joined, with that connection's id and current display name, so its length is the number
  of such connections. A connection with a display name is connected.
\<close>

theorem presence_snapshot:
  assumes "well_formed evs"
  shows "(presence_only evs \<longrightarrow> (\<exists>s log. run evs = Inr (s, log))) \<and>
         (\<forall>s log. run evs = Inr (s, log) \<longrightarrow>
            length (updates log) = mutations evs \<and>
            (\<forall>rs snap. updates log \<noteq> [] \<longrightarrow> last (updates log) = (rs, snap) \<longrightarrow>
               distinct rs \<and> set rs = {sid. connected (at_last_mutation evs) sid} \<and>
               (\<forall>sid. sid \<in> set rs \<longrightarrow> connected evs sid) \<and>
               (\<forall>sid. connected evs sid \<longrightarrow> sid \<notin> set rs \<longrightarrow> display_name evs sid = None) \<and>
               (\<forall>sid. sid \<in> set rs \<longrightarrow>
                  snapshots_received sid log \<noteq> [] \<and> last (snapshots_received sid log) = snap) \<and>
               distinct (map id' snap) \<and>
               (\<forall>sid n. \<lparr>username = n, id' = sid\<rparr> \<in> set snap \<longleftrightarrow>
                          display_name evs sid = Some n) \<and>
               length snap = card {sid. display_name evs sid \<noteq> None})) \<and>
         (\<forall>sid. display_name evs sid \<noteq> None \<longrightarrow> connected evs sid)"
proof (intro conjI allI impI)
  assume "presence_only evs"
  then show "\<exists>s log. run evs = Inr (s, log)" by (rule presence_only_runs)
next
  fix s log assume r: "run evs = Inr (s, log)"
  show "length (updates log) = mutations evs"
    using run_updates [OF assms r] by simp
next
  fix s log rs snap
  assume r: "run evs = Inr (s, log)" and ne: "updates log \<noteq> []"
    and l: "last (updates log) = (rs, snap)"
  have inv: "server_inv s" by (rule run_server_inv [OF assms r])
  have usr: "\<And>sid. get_prop (users s) sid =
         map_option (\<lambda>n. \<lparr>username = n, id' = sid\<rparr>) (display_name evs sid)"
    using run_invariant [OF assms r] by simp
  have u: "distinct rs" "set rs = {sid. connected (at_last_mutation evs) sid}"
    "snap = Object_values (users s)"
    using run_updates [OF assms r] ne l by simp_all
  show "distinct rs" by (rule u(1))
  show "set rs = {sid. connected (at_last_mutation evs) sid}" by (rule u(2))
  show "distinct (map id' snap)"
    unfolding u(3) by (rule snapshot_of_users(1) [OF inv])
  show "length snap = card {sid. display_name evs sid \<noteq> None}"
    unfolding u(3) snapshot_of_users(3) [OF inv] by (simp add: usr)
  {
    fix sid assume "sid \<in> set rs"
    then show "connected evs sid" using u(2) at_last_mutation_connected by blast
  next
    fix sid assume "connected evs sid" and "sid \<notin> set rs"
    then show "display_name evs sid = None"
      using u(2) connected_later_not_joined by blast
  next
    fix sid assume "sid \<in> set rs"
    then show "snapshots_received sid log \<noteq> []" "last (snapshots_received sid log) = snap"
      using last_snapshot_received [OF ne l] by simp_all
  next
    fix sid n
    show "\<lparr>username = n, id' = sid\<rparr> \<in> set snap \<longleftrightarrow> display_name evs sid = Some n"
      unfolding u(3) snapshot_of_users(2) [OF inv] by (auto simp: usr)
  }
next
  fix sid assume "display_name evs sid \<noteq> None"
  then show "connected evs sid"
    using display_name_connected [OF assms] by blast
qed

theorem presence_witness:
  "well_formed session \<and> presence_only session \<and>
   (\<exists>s log. run session = Inr (s, log) \<and> sockets s = [id_A, id_C, id_D] \<and>
      last (updates log) = ([id_A, id_C], [\<lparr>username = ''alice'', id' = id_A\<rparr>]) \<and>
      last (snapshots_received id_C log) = [\<lparr>username = ''alice'', id' = id_A\<rparr>]) \<and>
   card {sid. display_name session sid \<noteq> None} = 1 \<and>
   display_name session id_D = None"
proof -
  have h1: "well_formed session" by (simp add: session_def ex_defs id_D_def)
  have h2: "presence_only session" by (simp add: session_def)
  have r: "run session = Inr
     (\<lparr>sockets = [id_A, id_C, id_D], users = [(id_A, \<lparr>username = ''alice'', id' = id_A\<rparr>)]\<rparr>,
      [([id_A, id_B], UpdateUsers [\<lparr>username = ''al'', id' = id_A\<rparr>]),
       ([id_A, id_B], UpdateUsers [\<lparr>username = ''al'', id' = id_A\<rparr>, \<lparr>username = ''bob'', id' = id_B\<rparr>]),
       ([id_A, id_B], UpdateUsers [\<lparr>username = ''alice'', id' = id_A\<rparr>, \<lparr>username = ''bob'', id' = id_B\<rparr>]),
       ([id_A, id_C], UpdateUsers [\<lparr>username = ''alice'', id' = id_A\<rparr>])])"
    by (simp add: session_def initial_def on_join_def on_disconnect_def io_emit_def
      Object_values_def set_prop_def delete_prop_def ex_defs id_D_def)
  let ?log = "[([id_A, id_B], UpdateUsers [\<lparr>username = ''al'', id' = id_A\<rparr>]),
       ([id_A, id_B], UpdateUsers [\<lparr>username = ''al'', id' = id_A\<rparr>, \<lparr>username = ''bob'', id' = id_B\<rparr>]),
       ([id_A, id_B], UpdateUsers [\<lparr>username = ''alice'', id' = id_A\<rparr>, \<lparr>username = ''bob'', id' = id_B\<rparr>]),
       ([id_A, id_C], UpdateUsers [\<lparr>username = ''alice'', id' = id_A\<rparr>] :: string server_event)]"
  have u: "updates ?log \<noteq> []"
    "last (updates ?log) = ([id_A, id_C], [\<lparr>username = ''alice'', id' = id_A\<rparr>])"
    by simp_all
  have c: "connected session id_D" "id_D \<notin> set [id_A, id_C]" "id_C \<in> set [id_A, id_C]"
    by (simp_all add: session_def ex_defs id_D_def)
  note F = presence_snapshot [OF h1, THEN conjunct2, THEN conjunct1, rule_format, OF r,
      THEN conjunct2, rule_format, OF u]
  have f1: "display_name session id_D = None" using F c(1,2) by blast
  have f2: "last (snapshots_received id_C ?log) = [\<lparr>username = ''alice'', id' = id_A\<rparr>]"
    using F c(3) by blast
  have f3: "card {sid. display_name session sid \<noteq> None} = 1" using F by simp
  from h1 h2 r u f1 f2 f3 show ?thesis by simp
qed

text \<open>
  Claim C5 (the \<^verbatim>\<open>from\<close> field), as stated, fails for \<^verbatim>\<open>hang-up\<close>: server.js emits
  \<^verbatim>\<open>'hang-up'\<close> with no argument, so the event bob receives from alice has no
  \<^verbatim>\<open>from\<close> field.
\<close>

theorem hang_up_has_no_from:
  "\<exists>ev. on_event id_A (HangUp ''bob'' :: string client_event) three_clients =
           Inr (three_clients, [([id_B], ev)]) \<and>
        from_field ev = None \<and> from_field ev \<noteq> Some ''alice''"
  by (simp add: handler_defs ex_defs)

text \<open>
  Claim C5, amended. For a destination name that resolves to \<open>d\<close> the handler makes one
  emission, to \<open>d\<close> alone (to nobody when \<open>d\<close> is the sender). For a joined sender the
  event of an \<^verbatim>\<open>offer\<close>, \<^verbatim>\<open>answer\<close>, \<^verbatim>\<open>ice-candidate\<close> or \<^verbatim>\<open>reject-call\<close>
  carries the sender's display name as \<^verbatim>\<open>from\<close> and the payload as sent. The event of a
  \<^verbatim>\<open>hang-up\<close> carries neither, whether the sender has joined or not.
\<close>

theorem relay_from_field:
  assumes "server_inv s" and "destination m = Some to"
    and "toSocket_of (users s) to = Inr (Some d)"
  shows "(\<forall>u. get_prop (users s) sid = Some u \<longrightarrow>
            (\<exists>ev. on_event sid m s = Inr (s, [(if d = sid then [] else [d], ev)]) \<and>
               ev = relayed (username u) m \<and>
               from_field ev = (case m of HangUp t \<Rightarrow> None | _ \<Rightarrow> Some (username u)))) \<and>
         (\<forall>t. m = HangUp t \<longrightarrow>
            on_event sid m s = Inr (s, [(if d = sid then [] else [d], HangUpEvent)]) \<and>
            from_field (HangUpEvent :: 'p server_event) = None)"
proof (intro conjI allI impI)
  fix u assume u: "get_prop (users s) sid = Some u"
  show "\<exists>ev. on_event sid m s = Inr (s, [(if d = sid then [] else [d], ev)]) \<and>
               ev = relayed (username u) m \<and>
               from_field ev = (case m of HangUp t \<Rightarrow> None | _ \<Rightarrow> Some (username u))"
    using on_event_resolved_inv [OF assms u] assms(2) by (cases m) simp_all
next
  fix t assume m: "m = HangUp t"
  obtain v where v: "get_prop (users s) d = Some v"
    using toSocket_of_SomeD [OF assms(3)] by blast
  have d: "d \<in> set (sockets s)" "socket_io_id d"
    using server_inv_key [OF assms(1) v] by simp_all
  then have ne: "d \<noteq> []" by (auto simp: socket_io_id_def)
  have "distinct (sockets s)" using assms(1) by (simp add: server_inv_def)
  then have f: "filter (\<lambda>r. r = d \<and> r \<noteq> sid) (sockets s) = (if d = sid then [] else [d])"
    using d(1) by (simp add: filter_room)
  have "to = t" using assms(2) m by simp
  then show "on_event sid m s = Inr (s, [(if d = sid then [] else [d], HangUpEvent)])"
    using assms(3) ne f by (simp add: m on_hang_up_def socket_to_emit_def)
  show "from_field (HangUpEvent :: 'p server_event) = None" by simp
qed

theorem relay_from_field_witness:
  "server_inv three_clients \<and> destination (Answer ''carol'' ''sdp'') = Some ''carol'' \<and>
   toSocket_of (users three_clients) ''carol'' = Inr (Some id_C) \<and>
   get_prop (users three_clients) id_B = Some \<lparr>username = ''bob'', id' = id_B\<rparr> \<and>
   on_event id_B (Answer ''carol'' ''sdp'') three_clients =
     Inr (three_clients, [([id_C], AnswerFrom ''bob'' ''sdp'')]) \<and>
   server_inv bob_only \<and> get_prop (users bob_only) id_A = None \<and>
   toSocket_of (users bob_only) ''bob'' = Inr (Some id_B) \<and>
   on_event id_A (HangUp ''bob'' :: string client_event) bob_only =
     Inr (bob_only, [([id_B], HangUpEvent)])"
proof -
  have h1: "server_inv three_clients" by (simp add: server_inv_def ex_defs)
  have h2: "destination (Answer ''carol'' ''sdp'') = Some ''carol''" by simp
  have h3: "toSocket_of (users three_clients) ''carol'' = Inr (Some id_C)"
    by (simp add: handler_defs ex_defs)
  have h4: "get_prop (users three_clients) id_B = Some \<lparr>username = ''bob'', id' = id_B\<rparr>"
    by (simp add: get_prop_def ex_defs)
  have ne: "id_C \<noteq> id_B" "id_B \<noteq> id_A" by (simp_all add: ex_defs)
  have g1: "server_inv bob_only" by (simp add: server_inv_def ex_defs)
  have g2: "destination (HangUp ''bob'' :: string client_event) = Some ''bob''" by simp
  have g3: "toSocket_of (users bob_only) ''bob'' = Inr (Some id_B)"
    by (simp add: handler_defs ex_defs)
  have g4: "get_prop (users bob_only) id_A = None" by (simp add: get_prop_def ex_defs)
  from relay_from_field [OF h1 h2 h3, of id_B] h4 ne
  have a: "on_event id_B (Answer ''carol'' ''sdp'') three_clients =
     Inr (three_clients, [([id_C], AnswerFrom ''bob'' ''sdp'')])" by auto
  from relay_from_field [OF g1 g2 g3, of id_A] ne
  have b: "on_event id_A (HangUp ''bob'' :: string client_event) bob_only =
     Inr (bob_only, [([id_B], HangUpEvent)])" by auto
  from a b h1 h2 h3 h4 g1 g3 g4 show ?thesis by simp
qed

text \<open>
  Claim C6 (duplicate names), as stated, fails when the sender is itself the first holder of
  the name it addresses: the name resolves to the sender, \<^verbatim>\<open>socket.to\<close> leaves the sender
  out, and neither holder receives the message.
\<close>

theorem first_carol_reaches_nobody:
  "holders (users two_carols) ''carol'' = [id_B, id_C] \<and>
   (\<exists>out. on_event id_B (Offer ''carol'' ''sdp'') two_carols = Inr (two_carols, out) \<and>
      received_by id_B out = [] \<and> received_by id_C out = [])"
  by (simp add: handler_defs holders_def received_by_def ex_defs)

text \<open>
  Claim C6, amended. When one or more connections are registered under a name, the name
  resolves to the first of them in the order of \<^verbatim>\<open>Object.keys(users)\<close>, and a
  negotiation message a joined connection addresses to that name is received by that first
  holder and by no other connection; when the sender is that first holder, by nobody.
\<close>

theorem duplicate_name_first_holder:
  assumes "server_inv s" and "holders (users s) n = h # hs" and "destination m = Some n"
    and "get_prop (users s) sid = Some u"
  shows "toSocket_of (users s) n = Inr (Some h) \<and>
         (\<exists>out. on_event sid m s = Inr (s, out) \<and>
            (\<forall>c. received_by c out =
                  (if c = h \<and> sid \<noteq> h then [relayed (username u) m] else [])))"
proof -
  have "distinct (map fst (users s))" using assms(1) by (simp add: server_inv_def)
  then have r: "toSocket_of (users s) n = Inr (Some h)"
    using assms(2) by (simp add: toSocket_of_holders)
  show ?thesis
    using r on_event_resolved_inv [OF assms(1) assms(3) r assms(4)]
    by (auto simp: received_by_single)
qed

theorem duplicate_name_witness:
  "server_inv two_carols \<and> holders (users two_carols) ''carol'' = [id_B, id_C] \<and>
   destination (RejectCall ''carol'' :: string client_event) = Some ''carol'' \<and>
   get_prop (users two_carols) id_A = Some \<lparr>username = ''alice'', id' = id_A\<rparr> \<and>
   toSocket_of (users two_carols) ''carol'' = Inr (Some id_B) \<and>
   (\<exists>out. on_event id_A (RejectCall ''carol'' :: string client_event) two_carols =
             Inr (two_carols, out) \<and>
      received_by id_B out = [CallRejected ''alice''] \<and> received_by id_C out = [])"
proof -
  have h1: "server_inv two_carols" by (simp add: server_inv_def ex_defs)
  have h2: "holders (users two_carols) ''carol'' = [id_B, id_C]"
    by (simp add: holders_def ex_defs)
  have h3: "destination (RejectCall ''carol'' :: string client_event) = Some ''carol''" by simp
  have h4: "get_prop (users two_carols) id_A = Some \<lparr>username = ''alice'', id' = id_A\<rparr>"
    by (simp add: get_prop_def ex_defs)
  have ne: "id_A \<noteq> id_B" "id_C \<noteq> id_B" by (simp_all add: ex_defs)
  from duplicate_name_first_holder [OF h1 h2 h3 h4] ne h1 h2 h3 h4 show ?thesis by auto
qed

text \<open>
  Claim C7 (one record per connection). A join never throws, whatever the name (the empty
  string included). Afterwards the keys of \<^verbatim>\<open>users\<close> are distinct, every record holds
  the id it is keyed by, the joining connection's record holds the new name, the records of
  all other connections are as before, and a connection that had already joined keeps its
  place in the object.
\<close>

theorem join_replaces_own_record:
  assumes "server_inv s" and "sid \<in> set (sockets s)"
  shows "\<exists>s' out. (on_join sid n s :: 'p outcome) = Inr (s', out) \<and> server_inv s' \<and>
           distinct (Object_keys (users s')) \<and>
           (\<forall>k u. get_prop (users s') k = Some u \<longrightarrow> id' u = k) \<and>
           get_prop (users s') sid = Some \<lparr>username = n, id' = sid\<rparr> \<and>
           (\<forall>k. k \<noteq> sid \<longrightarrow> get_prop (users s') k = get_prop (users s) k) \<and>
           (\<forall>old. get_prop (users s) sid = Some old \<longrightarrow>
              users s' = map (\<lambda>(k, u). if k = sid then (k, \<lparr>username = n, id' = sid\<rparr>) else (k, u))
                           (users s))"
proof -
  let ?s' = "s\<lparr>users := set_prop sid \<lparr>username = n, id' = sid\<rparr> (users s)\<rparr>"
  have inv': "server_inv ?s'" by (rule on_join_inv [OF assms])
  have d: "distinct (map fst (users s))" using assms(1) by (simp add: server_inv_def)
  have 1: "(on_join sid n s :: 'p outcome) =
             Inr (?s', [io_emit ?s' (UpdateUsers (Object_values (users ?s')))])"
    by (simp add: on_join_def Let_def)
  have 2: "distinct (Object_keys (users ?s'))"
    using inv' by (simp add: server_inv_def Object_keys_def)
  have 3: "\<forall>k u. get_prop (users ?s') k = Some u \<longrightarrow> id' u = k"
    using server_inv_key [OF inv'] by blast
  have 4: "get_prop (users ?s') sid = Some \<lparr>username = n, id' = sid\<rparr>"
    by (simp add: get_prop_def set_prop_def update_conv')
  have 5: "\<forall>k. k \<noteq> sid \<longrightarrow> get_prop (users ?s') k = get_prop (users s) k"
    by (simp add: get_prop_def set_prop_def update_conv')
  have 6: "\<forall>old. get_prop (users s) sid = Some old \<longrightarrow>
              users ?s' = map (\<lambda>(k, u). if k = sid then (k, \<lparr>username = n, id' = sid\<rparr>) else (k, u))
                           (users s)"
  proof (intro allI impI)
    fix old assume "get_prop (users s) sid = Some old"
    then have m: "map_of (users s) sid = Some old" by (simp add: get_prop_def)
    have "users ?s' = AList.update sid \<lparr>username = n, id' = sid\<rparr> (users s)"
      by (simp add: set_prop_def)
    also have "\<dots> = map (\<lambda>(k, u). if k = sid then (k, \<lparr>username = n, id' = sid\<rparr>) else (k, u))
                           (users s)"
      by (rule update_in_place [OF d m])
    finally show "users ?s' =
        map (\<lambda>(k, u). if k = sid then (k, \<lparr>username = n, id' = sid\<rparr>) else (k, u)) (users s)" .
  qed
  show ?thesis using 1 inv' 2 3 4 5 6 by blast
qed

theorem join_witness:
  "server_inv three_clients \<and> id_B \<in> set (sockets three_clients) \<and>
   (\<exists>s' out. (on_join id_B '''' three_clients :: string outcome) = Inr (s', out) \<and>
      users s' = [(id_A, \<lparr>username = ''alice'', id' = id_A\<rparr>),
                  (id_B, \<lparr>username = '''', id' = id_B\<rparr>),
                  (id_C, \<lparr>username = ''carol'', id' = id_C\<rparr>)])"
proof -
  have h1: "server_inv three_clients" by (simp add: server_inv_def ex_defs)
  have h2: "id_B \<in> set (sockets three_clients)" by (simp add: ex_defs)
  have h3: "get_prop (users three_clients) id_B = Some \<lparr>username = ''bob'', id' = id_B\<rparr>"
    by (simp add: get_prop_def ex_defs)
  have m: "map (\<lambda>(k, u). if k = id_B then (k, \<lparr>username = '''', id' = id_B\<rparr>) else (k, u))
             (users three_clients) =
           [(id_A, \<lparr>username = ''alice'', id' = id_A\<rparr>),
            (id_B, \<lparr>username = '''', id' = id_B\<rparr>),
            (id_C, \<lparr>username = ''carol'', id' = id_C\<rparr>)]"
    by (simp add: ex_defs)
  from join_replaces_own_record [OF h1 h2, of "''''", where ?'p = string]
  obtain s' and out :: "string emission list" where
    j: "on_join id_B '''' three_clients = Inr (s', out)" and
    r: "\<forall>old. get_prop (users three_clients) id_B = Some old \<longrightarrow>
          users s' = map (\<lambda>(k, u). if k = id_B then (k, \<lparr>username = '''', id' = id_B\<rparr>) else (k, u))
                       (users three_clients)"
    by blast
  from r h3 m have "users s' = [(id_A, \<lparr>username = ''alice'', id' = id_A\<rparr>),
            (id_B, \<lparr>username = '''', id' = id_B\<rparr>),
            (id_C, \<lparr>username = ''carol'', id' = id_C\<rparr>)]" by simp
  with j h1 h2 show ?thesis by blast
qed

text \<open>
  Claim C8 (idempotent unregister). The disconnect handler of a connection without a record
  returns normally and leaves the whole state as it was (it still broadcasts the snapshot).
  For any connection the handler removes only that connection's record, and running it a
  second time changes nothing.
\<close>

theorem disconnect_absent_is_noop:
  "(get_prop (users s) sid = None \<longrightarrow>
      (on_disconnect sid s :: 'p outcome) =
        Inr (s, [io_emit s (UpdateUsers (Object_values (users s)))])) \<and>
   (\<forall>s1 out1. (on_disconnect sid s :: 'p outcome) = Inr (s1, out1) \<longrightarrow>
      get_prop (users s1) sid = None \<and>
      (\<forall>k. k \<noteq> sid \<longrightarrow> get_prop (users s1) k = get_prop (users s) k) \<and>
      (\<exists>out2. (on_disconnect sid s1 :: 'p outcome) = Inr (s1, out2)))"
proof (intro conjI allI impI)
  assume "get_prop (users s) sid = None"
  then have "sid \<notin> fst ` set (users s)" by (simp add: get_prop_def map_of_eq_None_iff)
  then have "delete_prop sid (users s) = users s" by (simp add: delete_prop_def)
  then show "(on_disconnect sid s :: 'p outcome) =
        Inr (s, [io_emit s (UpdateUsers (Object_values (users s)))])"
    by (simp add: on_disconnect_def Let_def)
next
  fix s1 and out1 :: "'p emission list"
  assume "on_disconnect sid s = Inr (s1, out1)"
  then have s1: "s1 = s\<lparr>users := delete_prop sid (users s)\<rparr>"
    by (auto simp: on_disconnect_def Let_def)
  show "get_prop (users s1) sid = None"
    by (simp add: s1 get_prop_def delete_prop_def delete_conv')
  show "\<exists>out2. (on_disconnect sid s1 :: 'p outcome) = Inr (s1, out2)"
    by (simp add: s1 on_disconnect_def Let_def delete_prop_def delete_idem)
  fix k assume "k \<noteq> sid"
  then show "get_prop (users s1) k = get_prop (users s) k"
    by (simp add: s1 get_prop_def delete_prop_def delete_conv')
qed

theorem disconnect_witness:
  "get_prop (users bob_alone) id_A = None \<and>
   (on_disconnect id_A bob_alone :: string outcome) =
     Inr (bob_alone, [([id_B], UpdateUsers [\<lparr>username = ''bob'', id' = id_B\<rparr>])])"
proof -
  have h1: "get_prop (users bob_alone) id_A = None" by (simp add: get_prop_def ex_defs)
  have e: "io_emit bob_alone (UpdateUsers (Object_values (users bob_alone))) =
     ([id_B], UpdateUsers [\<lparr>username = ''bob'', id' = id_B\<rparr>] :: string server_event)"
    by (simp add: io_emit_def Object_values_def bob_alone_def)
  from disconnect_absent_is_noop [of bob_alone id_A, where ?'p = string] h1 e
  show ?thesis by simp
qed

text \<open>
  Claim C9 (no delivery to the sender). No negotiation handler ever delivers to the sending
  connection, and a message whose destination name resolves to the sender's own id is
  delivered to no connection at all. This rests on \<open>socket_to_emit\<close>, the model of
  socket.io's \<^verbatim>\<open>socket.to(room).emit\<close>, which leaves the sending socket out.
\<close>

theorem relay_to_self_reaches_nobody:
  assumes "destination m = Some to"
  shows "(\<forall>s' out. on_event sid m s = Inr (s', out) \<longrightarrow> received_by sid out = []) \<and>
         (toSocket_of (users s) to = Inr (Some sid) \<longrightarrow>
            (\<exists>out. on_event sid m s = Inr (s, out) \<and> (\<forall>c. received_by c out = [])))"
proof (intro conjI allI impI)
  fix s' out assume "on_event sid m s = Inr (s', out)"
  then show "received_by sid out = []" by (rule negotiation_never_to_sender [OF assms])
next
  assume r: "toSocket_of (users s) to = Inr (Some sid)"
  obtain u where u: "get_prop (users s) sid = Some u"
    using toSocket_of_SomeD [OF r] by blast
  show "\<exists>out. on_event sid m s = Inr (s, out) \<and> (\<forall>c. received_by c out = [])"
  proof (cases "sid = []")
    case True
    then show ?thesis using assms r
      by (cases m)
         (simp_all add: on_offer_def on_answer_def on_ice_candidate_def on_reject_call_def
            on_hang_up_def received_by_def)
  next
    case False
    show ?thesis
      using on_event_resolved [OF assms r False u]
      by (simp add: socket_to_emit_def received_by_def)
  qed
qed

theorem self_relay_witness:
  "destination (HangUp ''carol'' :: string client_event) = Some ''carol'' \<and>
   toSocket_of (users two_carols) ''carol'' = Inr (Some id_B) \<and>
   (\<exists>out. on_event id_B (HangUp ''carol'' :: string client_event) two_carols = Inr (two_carols, out) \<and>
      received_by id_B out = [] \<and> received_by id_C out = [])"
proof -
  have h1: "destination (HangUp ''carol'' :: string client_event) = Some ''carol''" by simp
  have h2: "toSocket_of (users two_carols) ''carol'' = Inr (Some id_B)"
    by (simp add: handler_defs ex_defs)
  from relay_to_self_reaches_nobody [OF h1, of id_B two_carols] h1 h2 show ?thesis by auto
qed

text \<open>
  Claim C10 (passthrough endpoint). The claim says that the handler injects a
  \<^verbatim>\<open><base>\<close> tag, and the handler's own comment says so too: \<^verbatim>\<open>Add base tag to handle
  remaining relative URLs\<close>. The tag is put in by \<^verbatim>\<open>html.replace('<head>', ...)\<close>,
  which finds that exact text only: for a fetched document whose head tag is written
  \<^verbatim>\<open><HEAD>\<close> the answer has its root-relative link made absolute and no
  \<^verbatim>\<open><base>\<close> tag.
\<close>

theorem no_head_no_base_tag:
  \<open>proxy_resume (\<lambda>u. Inr ''http://example.com'') ''http://example.com/a''
       (Inr (StringData ''<HEAD></HEAD><a href="/x">'')) initial =
     (initial, HtmlResponse ''<HEAD></HEAD><a href="http://example.com/x">'')\<close>
  by (simp add: proxy_resume_def replace_regex_g_def replace_string_def)

end
